theory Spec2Isabelle
  imports Complex_Main "HOL-Library.Multiset"
begin

section \<open>The probe: \<open>check_endpoint\<close>\<close>

text \<open>
  \<open>check_endpoint(url, timeout)\<close> calls \<open>requests.get\<close> inside a \<open>try\<close> with two
  handlers. A Python exception is sorted by those handlers into three kinds, in the order
  the \<open>except\<close> clauses test them:
  \<^item> \<open>Timeout\<close>: an instance of \<open>requests.exceptions.Timeout\<close>;
  \<^item> \<open>RequestException n\<close>: any other instance of \<open>requests.exceptions.RequestException\<close>,
    whose class is named \<open>n\<close> (\<open>e.__class__.__name__\<close>);
  \<^item> \<open>OtherException n\<close>: an exception of class \<open>n\<close> outside that hierarchy (the
    \<open>ValueError\<close> of a non-positive timeout, for one), which no handler catches.
\<close>

datatype exc = Timeout | RequestException string | OtherException string

text \<open>
  What the outside world contributes to one call: \<open>get_result\<close> is what
  \<open>requests.get(url, timeout=timeout)\<close> does (it raises, or returns a response of which
  only \<open>status_code\<close> is read), and \<open>elapsed_rounded\<close> is the float that
  \<open>round(time.time() - start, 2)\<close> evaluates to, given by its exact rational value. The two
  clock reads and the floating-point rounding themselves are not modelled.
\<close>

record probe_env =
  get_result :: "exc + int"
  elapsed_rounded :: rat

text \<open>The dictionary returned by \<open>check_endpoint\<close>; \<open>None\<close> is Python's \<open>None\<close>.\<close>

record outcome =
  url :: string
  status :: "int option"
  time :: "rat option"
  result :: string

definition check_endpoint :: "string \<Rightarrow> int \<Rightarrow> probe_env \<Rightarrow> exc + outcome" where
  "check_endpoint u timeout env =
     (case get_result env of
        Inr status_code \<Rightarrow>
          (let elapsed = elapsed_rounded env in
           Inr \<lparr>url = u, status = Some status_code, time = Some elapsed,
                result = (if elapsed \<le> of_int timeout then ''UP'' else ''TIMEOUT'')\<rparr>)
      | Inl Timeout \<Rightarrow>
          Inr \<lparr>url = u, status = None, time = None, result = ''TIMEOUT''\<rparr>
      | Inl (RequestException n) \<Rightarrow>
          Inr \<lparr>url = u, status = None, time = None, result = ''DOWN ('' @ n @ '')''\<rparr>
      | Inl (OtherException n) \<Rightarrow> Inl (OtherException n))"

subsection \<open>The outcome as the specification reads it\<close>

text \<open>
  The specification speaks of a classification with three values and of a separate error
  detail. The code keeps both in the one string \<open>result\<close>: \<open>UP\<close>, \<open>TIMEOUT\<close>, or
  \<open>DOWN (\<close>class name\<open>)\<close>. The two functions below read the specification's fields off
  that string; \<open>http_status\<close> and \<open>elapsed\<close> are the fields \<open>status\<close> and \<open>time\<close>.
\<close>

datatype classification = C_UP | C_TIMEOUT | C_DOWN

definition is_down :: "string \<Rightarrow> bool" where
  "is_down s = (7 \<le> length s \<and> take 6 s = ''DOWN ('' \<and> last s = CHR '')'')"

definition classification :: "outcome \<Rightarrow> classification option" where
  "classification res =
     (if result res = ''UP'' then Some C_UP
      else if result res = ''TIMEOUT'' then Some C_TIMEOUT
      else if is_down (result res) then Some C_DOWN
      else None)"

definition error_detail :: "outcome \<Rightarrow> string option" where
  "error_detail res =
     (if is_down (result res) then Some (butlast (drop 6 (result res))) else None)"

definition caught :: "exc + int \<Rightarrow> bool" where
  "caught r = (case r of Inl (OtherException n) \<Rightarrow> False | _ \<Rightarrow> True)"

section \<open>Reading the endpoint list\<close>

text \<open>
  \<open>main\<close> opens the file in text mode and iterates over it. Text mode translates
  \<open>\r\n\<close> and a lone \<open>\r\<close> into \<open>\n\<close>; iteration yields the text cut after every
  \<open>\n\<close>, each line keeping its terminator, and a last line without one when the text
  does not end in \<open>\n\<close>. The text is a \<open>string\<close>, so its characters are the code points
  below 256.
\<close>

fun universal_newlines :: "string \<Rightarrow> string" where
  "universal_newlines [] = []"
| "universal_newlines [c] = (if c = CHR 0x0D then [CHR 0x0A] else [c])"
| "universal_newlines (c # d # cs) =
     (if c = CHR 0x0D \<and> d = CHR 0x0A then CHR 0x0A # universal_newlines cs
      else if c = CHR 0x0D then CHR 0x0A # universal_newlines (d # cs)
      else c # universal_newlines (d # cs))"

fun readlines :: "string \<Rightarrow> string list" where
  "readlines [] = []"
| "readlines (c # cs) =
     (if c = CHR 0x0A then [c] # readlines cs
      else (case readlines cs of [] \<Rightarrow> [[c]] | l # ls \<Rightarrow> (c # l) # ls))"

text \<open>
  \<open>str.strip()\<close> removes the characters for which \<open>str.isspace\<close> holds from both ends;
  below 256 these are tab, line feed, vertical tab, form feed, carriage return, the four
  separators \<open>0x1C\<close> to \<open>0x1F\<close>, space, \<open>0x85\<close> and \<open>0xA0\<close>.
\<close>

definition isspace :: "char \<Rightarrow> bool" where
  "isspace c = (of_char c \<in> {9, 10, 11, 12, 13, 28, 29, 30, 31, 32, 133, 160 :: nat})"

definition strip :: "string \<Rightarrow> string" where
  "strip s = rev (dropWhile isspace (rev (dropWhile isspace s)))"

definition startswith :: "string \<Rightarrow> string \<Rightarrow> bool" where
  "startswith s prefix = (take (length prefix) s = prefix)"

definition read_urls :: "string \<Rightarrow> string list" where
  "read_urls content =
     map strip (filter (\<lambda>line. strip line \<noteq> [] \<and> \<not> startswith (strip line) ''#'')
                       (readlines (universal_newlines content)))"

subsection \<open>The format as the specification words it\<close>

text \<open>
  One endpoint per line; a blank line (nothing but whitespace) is ignored; a line whose
  first non-whitespace character is \<open>#\<close> is ignored; every other line gives the endpoint
  that is left when the whitespace around it is removed.
\<close>

definition blank :: "string \<Rightarrow> bool" where
  "blank line = list_all isspace line"

definition comment :: "string \<Rightarrow> bool" where
  "comment line = (case dropWhile isspace line of [] \<Rightarrow> False | c # cs \<Rightarrow> c = CHR ''#'')"

definition surrounded :: "string \<Rightarrow> string \<Rightarrow> bool" where
  "surrounded e line =
     (list_ex (\<lambda>i. list_ex (\<lambda>j. line = take i line @ e @ drop j line \<and>
                                  list_all isspace (take i line) \<and>
                                  list_all isspace (drop j line))
                     [0..<Suc (length line)])
              [0..<Suc (length line)]
      \<and> (case e of [] \<Rightarrow> True | c # cs \<Rightarrow> \<not> isspace c \<and> \<not> isspace (last e)))"

definition listed_endpoints :: "string \<Rightarrow> string list" where
  "listed_endpoints content =
     map strip (filter (\<lambda>line. \<not> blank line \<and> \<not> comment line)
                       (readlines (universal_newlines content)))"

section \<open>The run: \<open>main\<close>\<close>

text \<open>The three module-level settings read from the environment at import.\<close>

record config =
  TIMEOUT :: int
  URL_FILE :: string
  MAX_WORKERS :: int

text \<open>
  The world \<open>main\<close> runs in. A path maps to nothing when \<open>os.path.exists\<close> is false, to
  its text, or to the class name of the exception \<open>open\<close> raises on it. \<open>net i\<close> is the
  environment of the call submitted \<open>i\<close>-th (two calls for the same URL are two calls), and
  \<open>finished_at i\<close> ranks the place at which \<open>as_completed\<close> yields its future: the
  futures already finished when the loop asks come in no particular order, the others as
  they finish. The rank is free, so every order of the futures is covered.
\<close>

datatype file_entry = Text string | Unopenable string

record world =
  files :: "string \<rightharpoonup> file_entry"
  net :: "nat \<Rightarrow> probe_env"
  finished_at :: "nat \<Rightarrow> nat"

definition submit_all :: "int \<Rightarrow> (nat \<Rightarrow> probe_env) \<Rightarrow> string list \<Rightarrow> (exc + outcome) list" where
  "submit_all timeout nw urls =
     map (\<lambda>(i, u). check_endpoint u timeout (nw i)) (enumerate 0 urls)"

definition as_completed :: "(nat \<Rightarrow> nat) \<Rightarrow> 'a list \<Rightarrow> 'a list" where
  "as_completed rank futures = map snd (sort_key (\<lambda>(i, f). rank i) (enumerate 0 futures))"

text \<open>
  The loop \<open>results.append(future.result())\<close>: \<open>future.result()\<close> raises again what the
  call raised, which ends the loop with the list as it stands.
\<close>

fun collect :: "(exc + outcome) list \<Rightarrow> outcome list \<Rightarrow> outcome list \<times> exc option" where
  "collect [] results = (results, None)"
| "collect (Inl e # futures) results = (results, Some e)"
| "collect (Inr res # futures) results = collect futures (results @ [res])"

text \<open>
  Lines 48 to 52 of \<open>main\<close>. \<open>ThreadPoolExecutor\<close> refuses a worker count below one with
  a \<open>ValueError\<close> before anything is submitted.
\<close>

definition run :: "config \<Rightarrow> world \<Rightarrow> string list \<Rightarrow> outcome list \<times> exc option" where
  "run cfg w urls =
     (if MAX_WORKERS cfg \<le> 0 then ([], Some (OtherException ''ValueError''))
      else collect (as_completed (finished_at w) (submit_all (TIMEOUT cfg) (net w) urls)) [])"

text \<open>
  A cell of \<open>table_data\<close>: a string, an integer, or \<open>Secs e\<close> for the string
  \<open>f"{e}s"\<close> of a float \<open>e\<close> (how Python prints a float is not modelled). Both
  conditional expressions test the value itself, so \<open>None\<close> and zero take the \<open>"-"\<close> branch.
\<close>

datatype cell = Str string | Num int | Secs rat

definition table_row :: "outcome \<Rightarrow> cell list" where
  "table_row res =
     [Str (url res),
      Str (result res),
      (case status res of None \<Rightarrow> Str ''-'' | Some c \<Rightarrow> if c = 0 then Str ''-'' else Num c),
      (case time res of None \<Rightarrow> Str ''-'' | Some e \<Rightarrow> if e = 0 then Str ''-'' else Secs e)]"

text \<open>
  What \<open>main\<close> leaves behind: the lines it printed (the table as the rows handed to
  \<open>tabulate\<close>; the progress bar is left out), the URLs it submitted to the executor, the
  list \<open>results\<close> at the end, and the exception it ended with, if any.
\<close>

datatype printout = NotFound string | Checking nat int int | ResultsHeading | Table "cell list list"

record trace =
  printed :: "printout list"
  requested :: "string list"
  results :: "outcome list"
  raised :: "exc option"

fun is_table :: "printout \<Rightarrow> bool" where
  "is_table (Table rows) = True"
| "is_table other = False"

definition main :: "config \<Rightarrow> world \<Rightarrow> trace" where
  "main cfg w =
     (case files w (URL_FILE cfg) of
        None \<Rightarrow>
          \<lparr>printed = [NotFound (URL_FILE cfg)], requested = [], results = [], raised = None\<rparr>
      | Some (Unopenable n) \<Rightarrow>
          \<lparr>printed = [], requested = [], results = [], raised = Some (OtherException n)\<rparr>
      | Some (Text content) \<Rightarrow>
          (let urls = read_urls content;
               banner = Checking (length urls) (MAX_WORKERS cfg) (TIMEOUT cfg);
               (rs, err) = run cfg w urls
           in \<lparr>printed = banner # (case err of
                                     None \<Rightarrow> [ResultsHeading, Table (map table_row rs)]
                                   | Some e \<Rightarrow> []),
               requested = (if MAX_WORKERS cfg \<le> 0 then [] else urls),
               results = rs,
               raised = err\<rparr>))"

section \<open>Concrete inputs\<close>

definition env_ok :: probe_env where
  "env_ok = \<lparr>get_result = Inr 200, elapsed_rounded = 1 / 10\<rparr>"

definition env_instant :: probe_env where
  "env_instant = \<lparr>get_result = Inr 200, elapsed_rounded = 0\<rparr>"

definition env_late :: probe_env where
  "env_late = \<lparr>get_result = Inr 200, elapsed_rounded = 31\<rparr>"

definition env_timeout :: probe_env where
  "env_timeout = \<lparr>get_result = Inl Timeout, elapsed_rounded = 0\<rparr>"

definition env_refused :: probe_env where
  "env_refused = \<lparr>get_result = Inl (RequestException ''ConnectionError''), elapsed_rounded = 0\<rparr>"

definition env_value_error :: probe_env where
  "env_value_error = \<lparr>get_result = Inl (OtherException ''ValueError''), elapsed_rounded = 0\<rparr>"

definition cfg_default :: config where
  "cfg_default = \<lparr>TIMEOUT = 30, URL_FILE = ''endpoints.txt'', MAX_WORKERS = 10\<rparr>"

definition net_mixed :: "nat \<Rightarrow> probe_env" where
  "net_mixed i = (if i = 0 then env_ok else if i = 1 then env_refused else env_timeout)"

definition net_leaking :: "nat \<Rightarrow> probe_env" where
  "net_leaking i = (if i = 1 then env_value_error else env_ok)"

definition last_first :: "nat \<Rightarrow> nat" where
  "last_first i = 2 - i"

definition endpoints_txt :: string where
  "endpoints_txt =
     ''# production'' @ [CHR 0x0D, CHR 0x0A] @
     ''  http://a.test  '' @ [CHR 0x0A] @
     [CHR 0x09, CHR 0x0A] @
     ''   #http://off.test'' @ [CHR 0x0A] @
     ''http://a.test'' @ [CHR 0x0D] @
     ''http://b.test''"

definition no_files :: "string \<rightharpoonup> file_entry" where
  "no_files = Map.empty"

definition one_file :: "string \<rightharpoonup> file_entry" where
  "one_file = [''endpoints.txt'' \<mapsto> Text endpoints_txt]"

definition world_empty :: world where
  "world_empty = \<lparr>files = no_files, net = net_mixed, finished_at = last_first\<rparr>"

definition world_mixed :: world where
  "world_mixed = \<lparr>files = one_file, net = net_mixed, finished_at = last_first\<rparr>"

definition world_leaking :: world where
  "world_leaking = \<lparr>files = one_file, net = net_leaking, finished_at = last_first\<rparr>"

definition urls_aab :: "string list" where
  "urls_aab = [''http://a.test'', ''http://a.test'', ''http://b.test'']"

definition res_up :: outcome where
  "res_up = \<lparr>url = ''http://ok.test'', status = Some 200, time = Some (1 / 10), result = ''UP''\<rparr>"

definition res_instant :: outcome where
  "res_instant = \<lparr>url = ''http://ok.test'', status = Some 200, time = Some 0, result = ''UP''\<rparr>"

definition res_late :: outcome where
  "res_late = \<lparr>url = ''http://slow.test'', status = Some 200, time = Some 31,
                result = ''TIMEOUT''\<rparr>"

definition res_timeout :: outcome where
  "res_timeout = \<lparr>url = ''http://slow.test'', status = None, time = None, result = ''TIMEOUT''\<rparr>"

definition res_refused :: outcome where
  "res_refused = \<lparr>url = ''http://refused.test'', status = None, time = None,
                   result = ''DOWN (ConnectionError)''\<rparr>"

section \<open>Properties of the probe\<close>

lemmas envs = env_ok_def env_instant_def env_late_def env_timeout_def env_refused_def
  env_value_error_def

lemmas views = classification_def is_down_def error_detail_def butlast_append

lemmas examples = res_up_def res_instant_def res_late_def res_timeout_def res_refused_def

text \<open>The four ways \<open>check_endpoint\<close> returns a dictionary, one per \<open>return\<close> statement
  (the first statement twice, for the two values of its conditional expression).\<close>

lemma check_endpoint_cases:
  assumes "check_endpoint u timeout env = Inr res"
  shows "(\<exists>c. get_result env = Inr c \<and> elapsed_rounded env \<le> of_int timeout \<and>
            res = \<lparr>url = u, status = Some c, time = Some (elapsed_rounded env), result = ''UP''\<rparr>)
       \<or> (\<exists>c. get_result env = Inr c \<and> \<not> elapsed_rounded env \<le> of_int timeout \<and>
            res = \<lparr>url = u, status = Some c, time = Some (elapsed_rounded env),
                   result = ''TIMEOUT''\<rparr>)
       \<or> (get_result env = Inl Timeout \<and>
            res = \<lparr>url = u, status = None, time = None, result = ''TIMEOUT''\<rparr>)
       \<or> (\<exists>n. get_result env = Inl (RequestException n) \<and>
            res = \<lparr>url = u, status = None, time = None, result = ''DOWN ('' @ n @ '')''\<rparr>)"
  using assms
  by (auto simp: check_endpoint_def Let_def split: sum.splits exc.splits if_splits)

lemma check_endpoint_examples:
  "check_endpoint ''http://ok.test'' 5 env_ok = Inr res_up"
  "check_endpoint ''http://ok.test'' 5 env_instant = Inr res_instant"
  "check_endpoint ''http://slow.test'' 30 env_late = Inr res_late"
  "check_endpoint ''http://slow.test'' 1 env_timeout = Inr res_timeout"
  "check_endpoint ''http://refused.test'' 30 env_refused = Inr res_refused"
  by (simp_all add: check_endpoint_def envs examples)

text \<open>
  Claim C2. Every outcome that \<open>check_endpoint\<close> returns has exactly one of the three
  classifications \<open>UP\<close>, \<open>TIMEOUT\<close>, \<open>DOWN\<close>: its \<open>result\<close> string is \<open>UP\<close>, or
  \<open>TIMEOUT\<close>, or \<open>DOWN (n)\<close> for the class name \<open>n\<close> of the request exception caught.
\<close>

theorem classification_three_valued:
  assumes "check_endpoint u timeout env = Inr res"
  shows "(classification res = Some C_UP \<or> classification res = Some C_TIMEOUT \<or>
          classification res = Some C_DOWN) \<and>
         (result res = ''UP'' \<or> result res = ''TIMEOUT'' \<or>
          (\<exists>n. get_result env = Inl (RequestException n) \<and> result res = ''DOWN ('' @ n @ '')''))"
  using check_endpoint_cases [OF assms]
  by (elim disjE exE conjE) (simp_all add: views)

theorem classification_three_valued_witness:
  "check_endpoint ''http://refused.test'' 30 env_refused = Inr res_refused \<and>
   classification res_refused = Some C_DOWN \<and>
   result res_refused = ''DOWN (ConnectionError)''"
proof -
  have h: "check_endpoint ''http://refused.test'' 30 env_refused = Inr res_refused"
    by (rule check_endpoint_examples)
  have "classification res_refused \<noteq> Some C_UP" "classification res_refused \<noteq> Some C_TIMEOUT"
    by (simp_all add: views examples)
  with classification_three_valued [OF h] h show ?thesis
    by (simp add: examples)
qed

text \<open>
  Claim C3, as the code has it. An outcome classified \<open>TIMEOUT\<close> carries no error detail.
  When the request raised \<open>requests.exceptions.Timeout\<close> it carries no status and no
  elapsed time; when a response arrived and the rounded elapsed time is above the timeout,
  it carries the status code of that response and that elapsed time.
\<close>

theorem timeout_outcome_fields:
  assumes "check_endpoint u timeout env = Inr res"
    and "classification res = Some C_TIMEOUT"
  shows "error_detail res = None \<and>
         ((get_result env = Inl Timeout \<and> status res = None \<and> time res = None) \<or>
          (\<exists>c. get_result env = Inr c \<and> of_int timeout < elapsed_rounded env \<and>
                status res = Some c \<and> time res = Some (elapsed_rounded env)))"
  using check_endpoint_cases [OF assms(1)] assms(2)
  by (elim disjE exE conjE) (simp_all add: views)

theorem timeout_outcome_fields_witness:
  "check_endpoint ''http://slow.test'' 1 env_timeout = Inr res_timeout \<and>
   classification res_timeout = Some C_TIMEOUT \<and>
   error_detail res_timeout = None \<and> status res_timeout = None \<and> time res_timeout = None"
proof -
  have h: "check_endpoint ''http://slow.test'' 1 env_timeout = Inr res_timeout"
    by (rule check_endpoint_examples)
  have c: "classification res_timeout = Some C_TIMEOUT"
    by (simp add: views examples)
  from timeout_outcome_fields [OF h c] h c show ?thesis
    by (simp add: envs)
qed

text \<open>
  A response that arrives after more than \<open>timeout\<close> seconds (the deadline of
  \<open>requests.get\<close> bounds each socket operation, not the whole call) is classified
  \<open>TIMEOUT\<close> by the comparison \<open>elapsed <= timeout\<close> and keeps its status and its
  elapsed time: here status 200 after 31 seconds with a timeout of 30.
\<close>

theorem timeout_carries_status_counterexample:
  "check_endpoint ''http://slow.test'' 30 env_late = Inr res_late \<and>
   classification res_late = Some C_TIMEOUT \<and>
   status res_late = Some 200 \<and> time res_late = Some 31"
  by (simp add: check_endpoint_def envs examples views)

text \<open>
  Claim C4. An outcome whose classification is not \<open>TIMEOUT\<close> has exactly one of status
  and error detail: it is \<open>UP\<close> with a status and an elapsed time and no error detail, or
  it is \<open>DOWN\<close> with an error detail and neither status nor elapsed time.
\<close>

theorem up_down_fields:
  assumes "check_endpoint u timeout env = Inr res"
    and "classification res \<noteq> Some C_TIMEOUT"
  shows "((status res \<noteq> None \<and> error_detail res = None) \<or>
          (status res = None \<and> error_detail res \<noteq> None)) \<and>
         ((classification res = Some C_UP \<and> status res \<noteq> None \<and> time res \<noteq> None \<and>
           error_detail res = None) \<or>
          (classification res = Some C_DOWN \<and> error_detail res \<noteq> None \<and>
           status res = None \<and> time res = None))"
  using check_endpoint_cases [OF assms(1)] assms(2)
  by (elim disjE exE conjE) (simp_all add: views)

theorem up_down_fields_witness:
  "(check_endpoint ''http://ok.test'' 5 env_ok = Inr res_up \<and>
    classification res_up \<noteq> Some C_TIMEOUT \<and>
    classification res_up = Some C_UP \<and> status res_up \<noteq> None \<and> time res_up \<noteq> None \<and>
    error_detail res_up = None) \<and>
   (check_endpoint ''http://refused.test'' 30 env_refused = Inr res_refused \<and>
    classification res_refused \<noteq> Some C_TIMEOUT \<and>
    classification res_refused = Some C_DOWN \<and> error_detail res_refused \<noteq> None \<and>
    status res_refused = None \<and> time res_refused = None)"
proof -
  have h1: "check_endpoint ''http://ok.test'' 5 env_ok = Inr res_up"
    and h2: "check_endpoint ''http://refused.test'' 30 env_refused = Inr res_refused"
    by (rule check_endpoint_examples)+
  have c1: "classification res_up \<noteq> Some C_TIMEOUT"
    and c2: "classification res_refused \<noteq> Some C_TIMEOUT"
    by (simp_all add: views examples)
  have d1: "classification res_up \<noteq> Some C_DOWN"
    and d2: "classification res_refused \<noteq> Some C_UP"
    by (simp_all add: views examples)
  from up_down_fields [OF h1 c1] d1 have "classification res_up = Some C_UP \<and>
      status res_up \<noteq> None \<and> time res_up \<noteq> None \<and> error_detail res_up = None"
    by blast
  moreover from up_down_fields [OF h2 c2] d2 have "classification res_refused = Some C_DOWN \<and>
      error_detail res_refused \<noteq> None \<and> status res_refused = None \<and> time res_refused = None"
    by blast
  ultimately show ?thesis using h1 h2 c1 c2 by blast
qed

text \<open>
  Claim C5, as the code has it. For every endpoint and timeout: when \<open>requests.get\<close>
  returns, or raises \<open>requests.exceptions.Timeout\<close> or another
  \<open>requests.exceptions.RequestException\<close>, the probe returns a classified outcome for its
  endpoint; an exception of any other class is caught by neither handler and leaves
  \<open>check_endpoint\<close> as it is.
\<close>

theorem probe_returns_or_propagates:
  "(caught (get_result env) \<and>
      (\<exists>res. check_endpoint u timeout env = Inr res \<and> url res = u \<and>
             (classification res = Some C_UP \<or> classification res = Some C_TIMEOUT \<or>
              classification res = Some C_DOWN))) \<or>
   (\<exists>n. get_result env = Inl (OtherException n) \<and>
        check_endpoint u timeout env = Inl (OtherException n))"
  by (auto simp: check_endpoint_def caught_def Let_def views split: sum.splits exc.splits)

theorem probe_returns_or_propagates_witness:
  "caught (get_result env_refused) \<and>
   \<not> isl (check_endpoint ''http://refused.test'' 30 env_refused)"
proof -
  have c: "caught (get_result env_refused)"
    by (simp add: caught_def envs)
  have "get_result env_refused \<noteq> Inl (OtherException n)" for n
    by (simp add: envs)
  with probe_returns_or_propagates [of env_refused "''http://refused.test''" 30] c
  show ?thesis by auto
qed

text \<open>
  With a timeout of zero \<open>requests.get\<close> raises a \<open>ValueError\<close> before it sends
  anything; it is no \<open>RequestException\<close>, so it reaches the caller of \<open>check_endpoint\<close>.
\<close>

theorem probe_propagates_counterexample:
  "check_endpoint ''http://a.test'' 0 env_value_error = Inl (OtherException ''ValueError'')"
  by (simp add: check_endpoint_def envs)

section \<open>Properties of the endpoint list\<close>

lemma strip_empty_iff: "strip l = [] \<longleftrightarrow> blank l"
proof -
  have "(\<forall>x\<in>set (dropWhile isspace l). isspace x) \<longleftrightarrow> dropWhile isspace l = []"
  proof
    assume a: "\<forall>x\<in>set (dropWhile isspace l). isspace x"
    show "dropWhile isspace l = []"
    proof (rule ccontr)
      assume n: "dropWhile isspace l \<noteq> []"
      then have "\<not> isspace (hd (dropWhile isspace l))" by (rule hd_dropWhile)
      moreover from n have "hd (dropWhile isspace l) \<in> set (dropWhile isspace l)" by simp
      ultimately show False using a by blast
    qed
  qed (auto dest: set_dropWhileD)
  then show ?thesis
    by (simp add: strip_def blank_def list_all_iff)
qed

lemma strip_decomp:
  "l = takeWhile isspace l @ strip l @ rev (takeWhile isspace (rev (dropWhile isspace l)))"
proof -
  let ?ys = "dropWhile isspace l"
  have "?ys = rev (dropWhile isspace (rev ?ys)) @ rev (takeWhile isspace (rev ?ys))"
    by (metis rev_append rev_rev_ident takeWhile_dropWhile_id)
  then have "?ys = strip l @ rev (takeWhile isspace (rev ?ys))"
    by (simp only: strip_def)
  moreover have "l = takeWhile isspace l @ ?ys" by simp
  ultimately show ?thesis by simp
qed

lemma strip_hd:
  assumes "strip l \<noteq> []"
  shows "hd (strip l) = hd (dropWhile isspace l)"
proof -
  have "dropWhile isspace l = strip l @ rev (takeWhile isspace (rev (dropWhile isspace l)))"
    using strip_decomp [of l] by (metis takeWhile_dropWhile_id same_append_eq)
  then show ?thesis using assms by (metis hd_append2)
qed

lemma strip_ends:
  assumes "strip l \<noteq> []"
  shows "\<not> isspace (hd (strip l))" and "\<not> isspace (last (strip l))"
proof -
  from assms have "\<not> blank l" by (simp add: strip_empty_iff)
  then have "dropWhile isspace l \<noteq> []"
    by (simp add: blank_def list_all_iff)
  then show "\<not> isspace (hd (strip l))"
    using strip_hd [OF assms] hd_dropWhile [of isspace l] by simp
  from assms have "dropWhile isspace (rev (dropWhile isspace l)) \<noteq> []"
    by (simp add: strip_def)
  then have "\<not> isspace (hd (dropWhile isspace (rev (dropWhile isspace l))))"
    by (rule hd_dropWhile)
  then show "\<not> isspace (last (strip l))"
    using assms by (simp add: strip_def last_rev)
qed

lemma startswith_hash: "startswith s ''#'' \<longleftrightarrow> (s \<noteq> [] \<and> hd s = CHR ''#'')"
  by (cases s) (simp_all add: startswith_def)

lemma comment_hd:
  "comment l \<longleftrightarrow> (dropWhile isspace l \<noteq> [] \<and> hd (dropWhile isspace l) = CHR ''#'')"
proof (cases "dropWhile isspace l")
  case Nil
  show ?thesis by (simp only: comment_def Nil list.case simp_thms)
next
  case (Cons c cs)
  show ?thesis by (simp only: comment_def Cons list.case list.sel list.distinct simp_thms)
qed

lemma keeps_line_iff:
  "(strip l \<noteq> [] \<and> \<not> startswith (strip l) ''#'') \<longleftrightarrow> (\<not> blank l \<and> \<not> comment l)"
proof (cases "strip l = []")
  case True
  then show ?thesis by (simp add: strip_empty_iff)
next
  case False
  then have "\<not> blank l" by (simp add: strip_empty_iff)
  then have "dropWhile isspace l \<noteq> []"
    by (simp add: blank_def list_all_iff)
  with False \<open>\<not> blank l\<close> show ?thesis
    by (simp add: startswith_hash comment_hd strip_hd)
qed

lemma surrounded_strip: "surrounded (strip l) l"
proof -
  let ?a = "takeWhile isspace l"
  let ?c = "rev (takeWhile isspace (rev (dropWhile isspace l)))"
  let ?i = "length ?a"
  let ?j = "length ?a + length (strip l)"
  have d: "l = ?a @ strip l @ ?c" by (rule strip_decomp)
  have len: "length l = ?i + length (strip l) + length ?c"
    using arg_cong [OF d, of length] by simp
  have ti: "take ?i l = ?a"
    by (metis d append_eq_conv_conj)
  have dj: "drop ?j l = ?c"
    by (metis d append_eq_conv_conj append.assoc length_append)
  have sa: "list_all isspace ?a"
    by (simp add: list_all_iff) (meson set_takeWhileD)
  have sc: "list_all isspace ?c"
    by (simp add: list_all_iff) (meson set_takeWhileD)
  have "?i \<in> set [0..<Suc (length l)]" using len by simp
  moreover have "?j \<in> set [0..<Suc (length l)]" using len by simp
  moreover have "l = take ?i l @ strip l @ drop ?j l \<and> list_all isspace (take ?i l) \<and>
      list_all isspace (drop ?j l)"
    using d ti dj sa sc by simp
  ultimately have "list_ex (\<lambda>i. list_ex (\<lambda>j. l = take i l @ strip l @ drop j l \<and>
                                  list_all isspace (take i l) \<and>
                                  list_all isspace (drop j l))
                     [0..<Suc (length l)])
              [0..<Suc (length l)]"
    unfolding list_ex_iff by blast
  moreover have "case strip l of [] \<Rightarrow> True
      | c # cs \<Rightarrow> \<not> isspace c \<and> \<not> isspace (last (strip l))"
    using strip_ends [of l] by (cases "strip l") auto
  ultimately show ?thesis unfolding surrounded_def by blast
qed

lemma read_urls_example:
  "read_urls endpoints_txt = [''http://a.test'', ''http://a.test'', ''http://b.test'']"
  by (simp add: read_urls_def endpoints_txt_def strip_def isspace_def startswith_def)

text \<open>
  Claim C8. Reading the endpoint list gives one endpoint for each line that is neither
  blank nor a comment (first non-whitespace character \<open>#\<close>), in the order of the lines,
  and no other rule applies; the endpoint of a line is the line without the whitespace
  around it: whitespace, the endpoint, whitespace, where the endpoint neither starts nor
  ends with whitespace.
\<close>

theorem read_urls_format:
  "read_urls content = listed_endpoints content \<and> (\<forall>line. surrounded (strip line) line)"
proof -
  have "filter (\<lambda>line. strip line \<noteq> [] \<and> \<not> startswith (strip line) ''#'') ls
      = filter (\<lambda>line. \<not> blank line \<and> \<not> comment line) ls" for ls
    by (rule filter_cong) (simp_all add: keeps_line_iff)
  then show ?thesis
    by (simp add: read_urls_def listed_endpoints_def surrounded_strip)
qed

theorem read_urls_format_witness:
  "listed_endpoints endpoints_txt = [''http://a.test'', ''http://a.test'', ''http://b.test''] \<and>
   surrounded ''http://a.test'' (''  http://a.test  '' @ [CHR 0x0A])"
proof -
  have "strip (''  http://a.test  '' @ [CHR 0x0A]) = ''http://a.test''"
    by (simp add: strip_def isspace_def)
  with read_urls_format [of endpoints_txt] read_urls_example show ?thesis
    by metis
qed

section \<open>Properties of the run\<close>

lemma collect_returned:
  "\<forall>f\<in>set futures. \<not> isl f \<Longrightarrow> collect futures acc = (acc @ map projr futures, None)"
proof (induction futures acc rule: collect.induct)
  case (1 results)
  then show ?case by simp
next
  case (2 e futures results)
  then show ?case by simp
next
  case (3 res futures results)
  then show ?case by simp
qed

lemma mset_as_completed: "mset (as_completed rank futures) = mset futures"
proof -
  have "mset (map snd (sort_key (\<lambda>(i, f). rank i) (enumerate 0 futures)))
      = image_mset snd (mset (sort_key (\<lambda>(i, f). rank i) (enumerate 0 futures)))"
    by (simp only: mset_map)
  also have "\<dots> = image_mset snd (mset (enumerate 0 futures))" by (simp only: mset_sort)
  also have "\<dots> = mset (map snd (enumerate 0 futures))" by (simp only: mset_map)
  also have "\<dots> = mset futures" by (simp only: map_snd_enumerate)
  finally show ?thesis by (simp only: as_completed_def)
qed

lemma check_endpoint_caught:
  assumes "caught (get_result env)"
  shows "\<not> isl (check_endpoint u timeout env)"
    and "url (projr (check_endpoint u timeout env)) = u"
  using assms
  by (auto simp: check_endpoint_def caught_def Let_def split: sum.splits exc.splits)

lemma submit_all_caught:
  assumes "\<forall>i<length urls. caught (get_result (nw i))"
  shows "\<forall>f\<in>set (submit_all timeout nw urls). \<not> isl f"
    and "map (\<lambda>f. url (projr f)) (submit_all timeout nw urls) = urls"
proof -
  have c: "caught (get_result (nw i))" if "(i, u) \<in> set (enumerate 0 urls)" for i u
    using that assms by (simp add: in_set_enumerate_eq)
  show "\<forall>f\<in>set (submit_all timeout nw urls). \<not> isl f"
    using c by (auto simp: submit_all_def check_endpoint_caught(1))
  have "map (\<lambda>f. url (projr f)) (submit_all timeout nw urls)
      = map (\<lambda>p. url (projr (check_endpoint (snd p) timeout (nw (fst p))))) (enumerate 0 urls)"
    by (simp add: submit_all_def case_prod_beta comp_def)
  also have "\<dots> = map snd (enumerate 0 urls)"
    by (rule map_cong) (auto simp: check_endpoint_caught(2) c)
  also have "\<dots> = urls" by (rule map_snd_enumerate)
  finally show "map (\<lambda>f. url (projr f)) (submit_all timeout nw urls) = urls" .
qed

lemma run_mixed:
  "run cfg_default world_mixed urls_aab
   = ([\<lparr>url = ''http://b.test'', status = None, time = None, result = ''TIMEOUT''\<rparr>,
       \<lparr>url = ''http://a.test'', status = None, time = None,
        result = ''DOWN (ConnectionError)''\<rparr>,
       \<lparr>url = ''http://a.test'', status = Some 200, time = Some (1 / 10), result = ''UP''\<rparr>],
      None)"
  by (simp add: run_def cfg_default_def world_mixed_def submit_all_def as_completed_def
      check_endpoint_def net_mixed_def last_first_def envs urls_aab_def)

lemma main_mixed:
  "main cfg_default world_mixed
   = \<lparr>printed = [Checking 3 10 30, ResultsHeading,
        Table [[Str ''http://b.test'', Str ''TIMEOUT'', Str ''-'', Str ''-''],
               [Str ''http://a.test'', Str ''DOWN (ConnectionError)'', Str ''-'', Str ''-''],
               [Str ''http://a.test'', Str ''UP'', Num 200, Secs (1 / 10)]]],
      requested = urls_aab,
      results = fst (run cfg_default world_mixed urls_aab),
      raised = None\<rparr>"
proof -
  have f: "files world_mixed (URL_FILE cfg_default) = Some (Text endpoints_txt)"
    by (simp add: world_mixed_def cfg_default_def one_file_def)
  have u: "read_urls endpoints_txt = urls_aab"
    by (simp add: read_urls_example urls_aab_def)
  show ?thesis
    by (simp add: main_def f u run_mixed table_row_def) (simp add: cfg_default_def urls_aab_def)
qed

lemma collect_raised:
  "\<exists>f\<in>set futures. isl f \<Longrightarrow>
   \<exists>rs e. collect futures acc = (acc @ rs, Some e) \<and> length rs < length futures \<and>
          Inl e \<in> set futures"
proof (induction futures acc rule: collect.induct)
  case (1 results)
  then show ?case by simp
next
  case (2 e futures results)
  show ?case by (rule exI [of _ "[]"]) simp
next
  case (3 res futures results)
  then have "\<exists>f\<in>set futures. isl f" by simp
  from 3(1) [OF this] obtain rs e
    where "collect futures (results @ [res]) = ((results @ [res]) @ rs, Some e)"
      and "length rs < length futures" and "Inl e \<in> set futures"
    by blast
  then have "collect (Inr res # futures) results = (results @ (res # rs), Some e) \<and>
      length (res # rs) < length (Inr res # futures) \<and> Inl e \<in> set (Inr res # futures)"
    by simp
  then show ?case by blast
qed

lemma check_endpoint_raises:
  "check_endpoint u timeout env = Inl e \<longleftrightarrow>
   (get_result env = Inl e \<and> \<not> caught (get_result env))"
  by (auto simp: check_endpoint_def caught_def Let_def split: sum.splits exc.splits)

lemma not_caught_iff: "\<not> caught r \<longleftrightarrow> (\<exists>n. r = Inl (OtherException n))"
  by (auto simp: caught_def split: sum.splits exc.splits)

lemma submit_all_raised:
  "Inl e \<in> set (submit_all timeout nw urls) \<longleftrightarrow>
   (\<exists>i<length urls. get_result (nw i) = Inl e \<and> \<not> caught (get_result (nw i)))"
proof -
  have "Inl e \<in> set (submit_all timeout nw urls) \<longleftrightarrow>
      (\<exists>p\<in>set (enumerate 0 urls). check_endpoint (snd p) timeout (nw (fst p)) = Inl e)"
    by (force simp: submit_all_def case_prod_beta image_iff)
  also have "\<dots> \<longleftrightarrow> (\<exists>i<length urls. check_endpoint (urls ! i) timeout (nw i) = Inl e)"
  proof
    assume "\<exists>p\<in>set (enumerate 0 urls). check_endpoint (snd p) timeout (nw (fst p)) = Inl e"
    then show "\<exists>i<length urls. check_endpoint (urls ! i) timeout (nw i) = Inl e"
      by (auto simp: in_set_enumerate_eq)
  next
    assume "\<exists>i<length urls. check_endpoint (urls ! i) timeout (nw i) = Inl e"
    then obtain i where i: "i < length urls" "check_endpoint (urls ! i) timeout (nw i) = Inl e"
      by blast
    then have "(i, urls ! i) \<in> set (enumerate 0 urls)"
      by (simp add: in_set_enumerate_eq)
    with i(2)
    show "\<exists>p\<in>set (enumerate 0 urls). check_endpoint (snd p) timeout (nw (fst p)) = Inl e"
      by force
  qed
  also have "\<dots> \<longleftrightarrow>
      (\<exists>i<length urls. get_result (nw i) = Inl e \<and> \<not> caught (get_result (nw i)))"
    by (simp add: check_endpoint_raises)
  finally show ?thesis .
qed

text \<open>Every call returns: the loop collects all of them.\<close>

lemma run_all_caught:
  assumes "0 < MAX_WORKERS cfg"
    and "\<forall>i<length urls. caught (get_result (net w i))"
  shows "\<exists>rs. run cfg w urls = (rs, None) \<and> length rs = length urls \<and>
           mset (map Inr rs) = mset (submit_all (TIMEOUT cfg) (net w) urls) \<and>
           mset (map url rs) = mset urls"
proof -
  let ?futs = "submit_all (TIMEOUT cfg) (net w) urls"
  let ?done = "as_completed (finished_at w) ?futs"
  let ?rs = "map projr ?done"
  have perm: "mset ?done = mset ?futs" by (rule mset_as_completed)
  have ok: "\<forall>f\<in>set ?futs. \<not> isl f" using assms(2) by (rule submit_all_caught(1))
  have "set ?done = set ?futs" using perm by (rule mset_eq_setD)
  with ok have ok': "\<forall>f\<in>set ?done. \<not> isl f" by simp
  have r: "run cfg w urls = (?rs, None)"
    using assms(1) collect_returned [OF ok', of "[]"] by (simp add: run_def)
  have "length ?done = length ?futs" using perm by (rule mset_eq_length)
  then have l: "length ?rs = length urls" by (simp add: submit_all_def)
  have "map Inr ?rs = ?done"
    using ok' by (simp add: map_idI)
  then have m: "mset (map Inr ?rs) = mset ?futs" using perm by simp
  have "mset (map url ?rs) = image_mset (\<lambda>f. url (projr f)) (mset ?done)"
    by (simp add: comp_def)
  also have "\<dots> = mset (map (\<lambda>f. url (projr f)) ?futs)" by (simp add: perm)
  also have "\<dots> = mset urls" using assms(2) by (simp add: submit_all_caught(2))
  finally have u: "mset (map url ?rs) = mset urls" .
  from r l m u show ?thesis by blast
qed

text \<open>Some call raises: the loop stops at the first such future it is handed.\<close>

lemma run_some_raised:
  assumes "0 < MAX_WORKERS cfg"
    and "\<exists>i<length urls. \<not> caught (get_result (net w i))"
  shows "\<exists>rs n. run cfg w urls = (rs, Some (OtherException n)) \<and> length rs < length urls \<and>
           (\<exists>i<length urls. get_result (net w i) = Inl (OtherException n))"
proof -
  let ?futs = "submit_all (TIMEOUT cfg) (net w) urls"
  let ?done = "as_completed (finished_at w) ?futs"
  have perm: "mset ?done = mset ?futs" by (rule mset_as_completed)
  then have s: "set ?done = set ?futs" by (rule mset_eq_setD)
  have len: "length ?done = length urls"
    using mset_eq_length [OF perm] by (simp add: submit_all_def)
  from assms(2) obtain i n
    where "i < length urls" "get_result (net w i) = Inl (OtherException n)"
      "\<not> caught (get_result (net w i))"
    by (auto simp: not_caught_iff)
  then have "Inl (OtherException n) \<in> set ?futs"
    by (auto simp: submit_all_raised)
  then have "\<exists>f\<in>set ?done. isl f" using s by force
  from collect_raised [OF this, of "[]"] obtain rs e
    where c: "collect ?done [] = (rs, Some e)" and l: "length rs < length ?done"
      and m: "Inl e \<in> set ?done"
    by auto
  from m s have "Inl e \<in> set ?futs" by simp
  then obtain j where j: "j < length urls" "get_result (net w j) = Inl e"
    "\<not> caught (get_result (net w j))"
    by (auto simp: submit_all_raised)
  then obtain k where k: "e = OtherException k" by (auto simp: not_caught_iff)
  have "run cfg w urls = (rs, Some (OtherException k))"
    using assms(1) c k by (simp add: run_def)
  with l len j k show ?thesis by auto
qed

text \<open>
  Claim C1, as the code has it. For every list of \<open>N\<close> endpoints (\<open>N\<close> may be zero,
  duplicates allowed) and at least one worker: when no call of \<open>check_endpoint\<close> lets an
  exception through, \<open>run\<close> ends with a list of exactly \<open>N\<close> outcomes and no
  exception; the outcomes are those of the \<open>N\<close> submitted calls, each once, in the order
  in which \<open>as_completed\<close> yields them, so every submitted endpoint, a repeated one as
  often as it is repeated, has its own outcome. When some call lets an exception through,
  \<open>run\<close> ends with the exception of such a call and with fewer than \<open>N\<close> outcomes
  collected.
\<close>

theorem run_one_outcome_per_endpoint:
  assumes "0 < MAX_WORKERS cfg"
  shows "((\<forall>i<length urls. caught (get_result (net w i))) \<longrightarrow>
          (\<exists>rs. run cfg w urls = (rs, None) \<and> length rs = length urls \<and>
                mset (map Inr rs) = mset (submit_all (TIMEOUT cfg) (net w) urls) \<and>
                mset (map url rs) = mset urls)) \<and>
         ((\<exists>i<length urls. \<not> caught (get_result (net w i))) \<longrightarrow>
          (\<exists>rs n. run cfg w urls = (rs, Some (OtherException n)) \<and>
                  length rs < length urls \<and>
                  (\<exists>i<length urls. get_result (net w i) = Inl (OtherException n))))"
  using run_all_caught [OF assms, of urls w] run_some_raised [OF assms, of urls w]
  by blast

theorem run_one_outcome_per_endpoint_witness:
  "0 < MAX_WORKERS cfg_default \<and>
   caught (get_result (net world_mixed 0)) \<and> caught (get_result (net world_mixed 1)) \<and>
   caught (get_result (net world_mixed 2)) \<and>
   snd (run cfg_default world_mixed urls_aab) = None \<and>
   length (fst (run cfg_default world_mixed urls_aab)) = 3 \<and>
   mset (map url (fst (run cfg_default world_mixed urls_aab))) = mset urls_aab \<and>
   \<not> caught (get_result (net world_leaking 1)) \<and>
   snd (run cfg_default world_leaking urls_aab) = Some (OtherException ''ValueError'') \<and>
   length (fst (run cfg_default world_leaking urls_aab)) < 3"
proof -
  have h1: "0 < MAX_WORKERS cfg_default" by (simp add: cfg_default_def)
  have c: "caught (get_result (net world_mixed i))" for i
    by (simp add: world_mixed_def net_mixed_def caught_def envs)
  then have h2: "\<forall>i<length urls_aab. caught (get_result (net world_mixed i))" by simp
  have n: "\<not> caught (get_result (net world_leaking 1))"
    by (simp add: world_leaking_def net_leaking_def caught_def envs)
  then have h3: "\<exists>i<length urls_aab. \<not> caught (get_result (net world_leaking i))"
    by (auto simp: urls_aab_def)
  have v: "k = ''ValueError''" if "get_result (net world_leaking i) = Inl (OtherException k)"
    for i k
    using that by (simp add: world_leaking_def net_leaking_def envs split: if_splits)
  from run_one_outcome_per_endpoint [OF h1, of urls_aab world_mixed] h2 obtain rs
    where "run cfg_default world_mixed urls_aab = (rs, None)"
      and "length rs = length urls_aab" and "mset (map url rs) = mset urls_aab"
    by blast
  moreover from run_one_outcome_per_endpoint [OF h1, of urls_aab world_leaking] h3 obtain rs' k
    where "run cfg_default world_leaking urls_aab = (rs', Some (OtherException k))"
      and "length rs' < length urls_aab"
      and "\<exists>i<length urls_aab. get_result (net world_leaking i) = Inl (OtherException k)"
    by blast
  ultimately show ?thesis using h1 c n v by (auto simp: urls_aab_def)
qed

text \<open>
  Three endpoints, the second call ending in a \<open>ValueError\<close>: the loop over the completed
  futures has appended one outcome when \<open>future.result()\<close> raises, and \<open>run\<close> ends with
  that exception instead of three outcomes.
\<close>

theorem run_leaking_counterexample:
  "run cfg_default world_leaking urls_aab
   = ([\<lparr>url = ''http://b.test'', status = Some 200, time = Some (1 / 10), result = ''UP''\<rparr>],
      Some (OtherException ''ValueError''))"
  by (simp add: run_def cfg_default_def world_leaking_def submit_all_def as_completed_def
      check_endpoint_def net_leaking_def last_first_def envs urls_aab_def)

text \<open>
  Claim C7. When the endpoint file does not exist, \<open>main\<close> prints the message that the
  file was not found and returns: nothing is submitted to the executor, there are no
  outcomes, and no table is printed.
\<close>

theorem missing_url_file_aborts:
  assumes "files w (URL_FILE cfg) = None"
  shows "requested (main cfg w) = [] \<and> results (main cfg w) = [] \<and>
         \<not> list_ex is_table (printed (main cfg w)) \<and>
         printed (main cfg w) = [NotFound (URL_FILE cfg)] \<and> raised (main cfg w) = None"
  using assms by (simp add: main_def)

theorem missing_url_file_aborts_witness:
  "files world_empty (URL_FILE cfg_default) = None \<and>
   requested (main cfg_default world_empty) = [] \<and>
   results (main cfg_default world_empty) = [] \<and>
   printed (main cfg_default world_empty) = [NotFound ''endpoints.txt'']"
proof -
  have h: "files world_empty (URL_FILE cfg_default) = None"
    by (simp add: world_empty_def no_files_def)
  from missing_url_file_aborts [OF h] h show ?thesis
    by (simp add: cfg_default_def)
qed

text \<open>
  Claim C9. A response whose rounded elapsed time is zero gives, for a timeout that is
  not negative, an \<open>UP\<close> outcome in which the elapsed time is present and zero; its row
  of the table has the placeholder \<open>-\<close> in the response-time column, not the time, since
  the row is built by testing the value, and zero tests false.
\<close>

theorem zero_elapsed_shows_placeholder:
  assumes "get_result env = Inr c" and "elapsed_rounded env = 0" and "0 \<le> timeout"
  shows "\<exists>res. check_endpoint u timeout env = Inr res \<and> result res = ''UP'' \<and>
           time res = Some 0 \<and>
           table_row res = [Str u, Str ''UP'', (if c = 0 then Str ''-'' else Num c), Str ''-'']"
  using assms by (simp add: check_endpoint_def table_row_def)

theorem zero_elapsed_shows_placeholder_witness:
  "get_result env_instant = Inr 200 \<and> elapsed_rounded env_instant = 0 \<and> (0::int) \<le> 5 \<and>
   check_endpoint ''http://ok.test'' 5 env_instant = Inr res_instant \<and>
   time res_instant = Some 0 \<and>
   table_row res_instant = [Str ''http://ok.test'', Str ''UP'', Num 200, Str ''-'']"
proof -
  have h1: "get_result env_instant = Inr 200" and h2: "elapsed_rounded env_instant = 0"
    by (simp_all add: envs)
  have h3: "(0::int) \<le> 5" by simp
  have e: "check_endpoint ''http://ok.test'' 5 env_instant = Inr res_instant"
    by (rule check_endpoint_examples)
  from zero_elapsed_shows_placeholder [OF h1 h2 h3, of "''http://ok.test''"] e h1 h2
  show ?thesis by auto
qed

end
